theory Spec2Isabelle
  imports Main "HOL-Library.Sublist"
begin

section \<open>The starter-pack wizard: state and reducer\<close>

text \<open>
  The wizard file declares \<^verbatim>\<open>const steps = ['Details', 'Profiles', 'Feeds'] as const\<close>
  and \<^verbatim>\<open>type Step = (typeof steps)[number]\<close>: a step is one of three tags.
\<close>

datatype Step = Details | Profiles | Feeds

definition steps :: "Step list" where
  "steps = [Details, Profiles, Feeds]"

text \<open>
  \<^verbatim>\<open>Array.prototype.indexOf\<close>: the first index holding the element, \<open>-1\<close> when there is
  none. Indexing an array, \<^verbatim>\<open>xs[i]\<close>, yields \<^verbatim>\<open>undefined\<close> outside \<open>0 .. length - 1\<close>.
\<close>

fun indexOf :: "'a list \<Rightarrow> 'a \<Rightarrow> int" where
  "indexOf [] x = -1"
| "indexOf (y # ys) x =
     (if y = x then 0 else (let i = indexOf ys x in if i < 0 then -1 else i + 1))"

definition at_index :: "'a list \<Rightarrow> int \<Rightarrow> 'a option" where
  "at_index xs i = (if 0 \<le> i \<and> i < int (length xs) then Some (xs ! nat i) else None)"

text \<open>
  The two SDK views the wizard stores. Only the identifying fields are read by the
  reducer (\<^verbatim>\<open>profile.did\<close>, \<^verbatim>\<open>f.uri\<close>); one further field each keeps entries with the same
  identifier distinguishable.
\<close>

record ProfileViewBasic =
  did :: string
  handle :: string

record GeneratorView =
  uri :: string
  displayName :: string

datatype Action =
    Next
  | Back
  | SetCanNext bool
  | SetName string
  | SetDescription string
  | AddProfile ProfileViewBasic
  | RemoveProfile string
  | AddFeed GeneratorView
  | RemoveFeed string
  | SetProcessing bool

text \<open>
  \<^verbatim>\<open>interface State\<close>: \<^verbatim>\<open>name\<close> and \<^verbatim>\<open>description\<close> are optional (\<^verbatim>\<open>string | undefined\<close>).
\<close>

record State =
  canNext :: bool
  currentStep :: Step
  name :: "string option"
  description :: "string option"
  profiles :: "ProfileViewBasic list"
  feeds :: "GeneratorView list"
  processing :: bool

text \<open>
  \<^verbatim>\<open>Boolean(x)\<close> for \<^verbatim>\<open>x : string | undefined\<close>: \<^verbatim>\<open>undefined\<close> and the empty string are
  falsy, every other string is truthy.
\<close>

fun Boolean :: "string option \<Rightarrow> bool" where
  "Boolean None = False"
| "Boolean (Some s) = (s \<noteq> [])"

text \<open>
  Lines 46--51 of the reducer, the navigation block. \<^verbatim>\<open>steps[currentIndex + 1]\<close> is read
  with \<open>at_index\<close>; the source's type \<^verbatim>\<open>Step\<close> for \<^verbatim>\<open>currentStep\<close> has no room for
  \<^verbatim>\<open>undefined\<close>, so the model keeps the state where the read is out of range, and
  \<open>navigation_in_range\<close> below shows that the guards make that branch dead.
\<close>

definition navigation :: "State \<Rightarrow> Action \<Rightarrow> State" where
  "navigation state action =
     (let currentIndex = indexOf steps (currentStep state) in
      if action = Next \<and> currentStep state \<noteq> Feeds then
        (case at_index steps (currentIndex + 1) of
           Some st \<Rightarrow> state\<lparr>currentStep := st\<rparr>
         | None \<Rightarrow> state)
      else if action = Back \<and> currentStep state \<noteq> Details then
        (case at_index steps (currentIndex - 1) of
           Some st \<Rightarrow> state\<lparr>currentStep := st\<rparr>
         | None \<Rightarrow> state)
      else state)"

text \<open>
  Lines 53--83, the \<^verbatim>\<open>switch (action.type)\<close>. Every case spreads the \<^emph>\<open>incoming\<close>
  \<^verbatim>\<open>state\<close>, not \<^verbatim>\<open>updatedState\<close>; an action type without a case (\<^verbatim>\<open>Next\<close>, \<^verbatim>\<open>Back\<close>,
  \<^verbatim>\<open>SetCanNext\<close>) leaves \<^verbatim>\<open>updatedState\<close> as the navigation block set it.
\<close>

fun mutation :: "State \<Rightarrow> State \<Rightarrow> Action \<Rightarrow> State" where
  "mutation state updatedState (SetName n) = state\<lparr>name := Some n\<rparr>"
| "mutation state updatedState (SetDescription d) = state\<lparr>description := Some d\<rparr>"
| "mutation state updatedState (AddProfile profile) =
     state\<lparr>profiles := profiles state @ [profile]\<rparr>"
| "mutation state updatedState (RemoveProfile profileDid) =
     state\<lparr>profiles := filter (\<lambda>profile. did profile \<noteq> profileDid) (profiles state)\<rparr>"
| "mutation state updatedState (AddFeed feed) = state\<lparr>feeds := feeds state @ [feed]\<rparr>"
| "mutation state updatedState (RemoveFeed feedUri) =
     state\<lparr>feeds := filter (\<lambda>f. uri f \<noteq> feedUri) (feeds state)\<rparr>"
| "mutation state updatedState (SetProcessing p) = state\<lparr>processing := p\<rparr>"
| "mutation state updatedState Next = updatedState"
| "mutation state updatedState Back = updatedState"
| "mutation state updatedState (SetCanNext b) = updatedState"

text \<open>Lines 85--98, the \<^verbatim>\<open>switch (updatedState.currentStep)\<close> that recomputes \<^verbatim>\<open>canNext\<close>.\<close>

definition validity :: "State \<Rightarrow> State" where
  "validity updatedState =
     (case currentStep updatedState of
        Details \<Rightarrow> updatedState\<lparr>canNext := Boolean (description updatedState)\<rparr>
      | _ \<Rightarrow> updatedState\<lparr>canNext := True\<rparr>)"

definition reducer :: "State \<Rightarrow> Action \<Rightarrow> State" where
  "reducer state action = validity (mutation state (navigation state action) action)"

text \<open>
  The payloads \<^verbatim>\<open>createInitialState\<close> reads. \<^verbatim>\<open>starterPack.record\<close> has the SDK type
  \<^verbatim>\<open>{}\<close>; \<^verbatim>\<open>AppBskyGraphStarterpack.isRecord\<close> is the SDK's type guard for it and is a
  parameter of the model. After the guard the record's \<^verbatim>\<open>name\<close> is a string and its
  \<^verbatim>\<open>description\<close> an optional string.
\<close>

record StarterpackRecord =
  name :: string
  description :: "string option"

record ListItemView =
  subject :: ProfileViewBasic

record StarterPackView =
  record_of :: StarterpackRecord
  listItemsSample :: "ListItemView list option"
  feeds :: "GeneratorView list option"

text \<open>
  Lines 111--131. \<^verbatim>\<open>xs?.map(f) || []\<close> is \<open>[]\<close> when \<^verbatim>\<open>xs\<close> is absent and the mapped
  array otherwise (an array, even an empty one, is truthy); \<^verbatim>\<open>xs || []\<close> likewise.
\<close>

definition createInitialState ::
  "(StarterpackRecord \<Rightarrow> bool) \<Rightarrow> StarterPackView option \<Rightarrow> State" where
  "createInitialState isRecord starterPack =
     (case starterPack of
        Some sp \<Rightarrow>
          if isRecord (record_of sp) then
            \<lparr>canNext = False,
             currentStep = Details,
             State.name = Some (StarterpackRecord.name (record_of sp)),
             State.description = StarterpackRecord.description (record_of sp),
             profiles = (case listItemsSample sp of
                           Some items \<Rightarrow> map subject items
                         | None \<Rightarrow> []),
             State.feeds = (case StarterPackView.feeds sp of Some fs \<Rightarrow> fs | None \<Rightarrow> []),
             processing = False\<rparr>
          else
            \<lparr>canNext = False, currentStep = Details, State.name = None,
             State.description = None, profiles = [], State.feeds = [], processing = False\<rparr>
      | None \<Rightarrow>
          \<lparr>canNext = False, currentStep = Details, State.name = None,
           State.description = None, profiles = [], State.feeds = [], processing = False\<rparr>)"

text \<open>
  Dispatching a sequence of actions is \<open>foldl reducer\<close>. A type guard that accepts every
  starter-pack record, and two sample profiles.
\<close>

definition isRecord0 :: "StarterpackRecord \<Rightarrow> bool" where
  "isRecord0 r = True"

definition alice :: ProfileViewBasic where
  "alice = \<lparr>did = ''did:plc:alice'', handle = ''alice.test''\<rparr>"

definition bob :: ProfileViewBasic where
  "bob = \<lparr>did = ''did:plc:bob'', handle = ''bob.test''\<rparr>"

text \<open>
  A dispatch sequence adds only fresh profiles when every \<^verbatim>\<open>AddProfile\<close> in it carries a
  \<^verbatim>\<open>did\<close> that is not among the profiles of the state it is dispatched on.
\<close>

fun fresh_adds :: "State \<Rightarrow> Action list \<Rightarrow> bool" where
  "fresh_adds s [] = True"
| "fresh_adds s (a # as) =
     ((case a of AddProfile p \<Rightarrow> did p \<notin> set (map did (profiles s)) | _ \<Rightarrow> True)
      \<and> fresh_adds (reducer s a) as)"

section \<open>Postgate records: fetch, write, upsert and the two toggles\<close>

subsection \<open>Values\<close>

text \<open>
  A JavaScript \<^verbatim>\<open>Error\<close>: its message and its optional \<^verbatim>\<open>cause\<close>. The source reads
  \<^verbatim>\<open>e.message\<close> of whatever was thrown, so every thrown value is taken to be an \<^verbatim>\<open>Error\<close>.
\<close>

datatype error = Error (message: string) (cause: "error option")

text \<open>\<^verbatim>\<open>String.prototype.includes\<close>: the argument occurs as a contiguous substring.\<close>

fun str_includes :: "string \<Rightarrow> string \<Rightarrow> bool" where
  "str_includes [] sub = (sub = [])"
| "str_includes (c # cs) sub = (prefix sub (c # cs) \<or> str_includes cs sub)"

text \<open>The two fields of the SDK's \<^verbatim>\<open>AtUri\<close> that the module reads.\<close>

record AtUri =
  host :: string
  rkey :: string

datatype Rule = Rule (rule_type: string)

text \<open>
  \<^verbatim>\<open>AppBskyFeedPostgate.Record\<close> as this module uses it: \<^verbatim>\<open>post\<close>, and the two optional
  arrays. \<open>PostgatePartial\<close> holds the optional fields on their own: it is the
  \<^verbatim>\<open>Partial<Record>\<close> handed to the merge and the argument of the create helper.
\<close>

record PostgatePartial =
  detachedQuotes :: "string list option"
  quotepostRules :: "Rule list option"

record PostgateRecord = PostgatePartial +
  post :: string

record PostView =
  uri :: string

text \<open>
  The parameters of \<^verbatim>\<open>com.atproto.repo.getRecord\<close>, and those of \<^verbatim>\<open>putRecord\<close>, which
  add the record to write.
\<close>

record GetRecordParams =
  repo :: string
  collection :: string
  rkey :: string

record PutRecordParams = GetRecordParams +
  record_written :: PostgateRecord

subsection \<open>The agent, the imported names and the trace of remote calls\<close>

text \<open>
  The agent is the remote as this module meets it. Its answers are scripted: the answer
  to a \<^verbatim>\<open>getRecord\<close> call may depend on how many \<^verbatim>\<open>getRecord\<close> calls were made before
  (so a transient failure can be followed by a success), likewise for \<^verbatim>\<open>putRecord\<close>.
  \<^verbatim>\<open>getRecord\<close> answers with \<^verbatim>\<open>data.value\<close> (\<open>None\<close> when it is missing or falsy) or
  throws. \<^verbatim>\<open>agent.session!.did\<close> asserts a session, so the agent has one.
\<close>

record 'v BskyAgent =
  session_did :: string
  resolveHandle :: "string \<Rightarrow> error + string"
  getRecord :: "nat \<Rightarrow> GetRecordParams \<Rightarrow> error + 'v option"
  putRecord :: "nat \<Rightarrow> PutRecordParams \<Rightarrow> error + unit"

text \<open>
  Names the module imports whose code is not part of the sources: the SDK's
  \<^verbatim>\<open>new AtUri(s)\<close> (which throws on a malformed URI), the SDK's type guard
  \<^verbatim>\<open>AppBskyFeedPostgate.isRecord\<close> (\<open>Some r\<close> when the guard accepts the payload, \<open>r\<close>
  being the payload read as a record), the collection constant, and the test for a
  network error that the write's retry uses. They are parameters.
\<close>

record 'v Imports =
  AtUri_new :: "string \<Rightarrow> error + AtUri"
  Postgate_isRecord :: "'v \<Rightarrow> PostgateRecord option"
  POSTGATE_COLLECTION :: string
  isNetworkError :: "error \<Rightarrow> bool"

text \<open>The calls made to the remote so far, oldest first.\<close>

record World =
  getLog :: "GetRecordParams list"
  putLog :: "PutRecordParams list"

definition callGetRecord ::
  "'v BskyAgent \<Rightarrow> GetRecordParams \<Rightarrow> World \<Rightarrow> (error + 'v option) \<times> World" where
  "callGetRecord agent params w =
     (getRecord agent (length (getLog w)) params, w\<lparr>getLog := getLog w @ [params]\<rparr>)"

definition callPutRecord ::
  "'v BskyAgent \<Rightarrow> PutRecordParams \<Rightarrow> World \<Rightarrow> (error + unit) \<times> World" where
  "callPutRecord agent params w =
     (putRecord agent (length (putLog w)) params, w\<lparr>putLog := putLog w @ [params]\<rparr>)"

subsection \<open>Helpers of the repository that are not among the sources\<close>

text \<open>
  Modelled from the spec: \<^verbatim>\<open>retry\<close> of \<^verbatim>\<open>#/lib/async/retry\<close> is missing. The spec says
  of the fetch that it ``is retried up to 2 additional times, but a retry predicate
  short-circuits retrying'' on the error it rejects: the operation runs; an error the
  predicate accepts is retried while retries remain; any other error, and the error of the
  last attempt, is thrown.
\<close>

fun retry ::
  "nat \<Rightarrow> (error \<Rightarrow> bool) \<Rightarrow> ('w \<Rightarrow> (error + 'a) \<times> 'w) \<Rightarrow> 'w \<Rightarrow> (error + 'a) \<times> 'w" where
  "retry 0 cond fn w = fn w"
| "retry (Suc n) cond fn w =
     (case fn w of
        (Inr v, w') \<Rightarrow> (Inr v, w')
      | (Inl e, w') \<Rightarrow> if cond e then retry n cond fn w' else (Inl e, w'))"

text \<open>
  Modelled from the spec: \<^verbatim>\<open>networkRetry\<close> of \<^verbatim>\<open>#/lib/async/retry\<close> is missing. The
  spec says of the write that it is ``retried up to 2 additional times on transient
  failure'': \<open>retry\<close> with the network-error test as its predicate.
\<close>

definition networkRetry ::
  "'v Imports \<Rightarrow> nat \<Rightarrow> ('w \<Rightarrow> (error + 'a) \<times> 'w) \<Rightarrow> 'w \<Rightarrow> (error + 'a) \<times> 'w" where
  "networkRetry deps n fn w = retry n (isNetworkError deps) fn w"

text \<open>
  Modelled from the spec: the ``duplicates collapsed since it is a set'' of the missing
  \<^verbatim>\<open>mergePostgateRecords\<close> (below); first occurrences are kept, in order.
\<close>

definition collapse :: "'a list \<Rightarrow> 'a list" where
  "collapse xs = fold (\<lambda>x acc. if x \<in> set acc then acc else acc @ [x]) xs []"

text \<open>
  Modelled from the spec: the \<^verbatim>\<open>detachedQuotes\<close> that the missing
  \<^verbatim>\<open>mergePostgateRecords\<close> unites, an absent field holding no entry.
\<close>

definition quotes_of :: "'a PostgatePartial_scheme \<Rightarrow> string list" where
  "quotes_of r = (case detachedQuotes r of Some qs \<Rightarrow> qs | None \<Rightarrow> [])"

text \<open>
  Modelled from the spec: \<^verbatim>\<open>mergePostgateRecords\<close> of \<^verbatim>\<open>#/state/queries/postgate/util\<close>
  is missing. The spec: ``union \<^verbatim>\<open>detachedQuotes\<close> (delta entries added, duplicates
  collapsed since it is a set), replace \<^verbatim>\<open>quotepostRules\<close> wholesale with delta's value
  when supplied.''
\<close>

definition mergePostgateRecords :: "PostgateRecord \<Rightarrow> PostgatePartial \<Rightarrow> PostgateRecord" where
  "mergePostgateRecords base delta =
     base\<lparr>detachedQuotes := Some (collapse (quotes_of base @ quotes_of delta)),
          quotepostRules := (case quotepostRules delta of
                               Some rules \<Rightarrow> Some rules
                             | None \<Rightarrow> quotepostRules base)\<rparr>"

text \<open>
  Modelled from the spec: \<^verbatim>\<open>createPostgateRecord\<close> of \<^verbatim>\<open>#/state/queries/postgate/util\<close>
  is missing. The spec has it ``create a new record with that single detached entry'',
  respectively with the single rule: the record for the post with the fields supplied.
\<close>

definition createPostgateRecord :: "string \<Rightarrow> PostgatePartial \<Rightarrow> PostgateRecord" where
  "createPostgateRecord p given =
     \<lparr>detachedQuotes = detachedQuotes given, quotepostRules = quotepostRules given, post = p\<rparr>"

subsection \<open>getPostgateRecord\<close>

text \<open>The test of lines 46 and 70: \<^verbatim>\<open>e.message.includes(`Could not locate record:`)\<close>.\<close>

definition not_located :: "error \<Rightarrow> bool" where
  "not_located e = str_includes (message e) ''Could not locate record:''"

text \<open>The predicate handed to \<^verbatim>\<open>retry\<close>, lines 40--50.\<close>

definition retry_cond :: "error \<Rightarrow> bool" where
  "retry_cond e = (if not_located e then False else True)"

text \<open>
  Lines 28--35: parse the URI and, when the host is not a DID, resolve the handle and
  store the DID as the host. Both steps are outside the \<^verbatim>\<open>try\<close>: what they throw
  leaves the function as it is.
\<close>

definition resolveUri :: "'v Imports \<Rightarrow> 'v BskyAgent \<Rightarrow> string \<Rightarrow> error + AtUri" where
  "resolveUri deps agent postUri =
     (case AtUri_new deps postUri of
        Inl e \<Rightarrow> Inl e
      | Inr urip \<Rightarrow>
          if \<not> prefix ''did:'' (host urip) then
            (case resolveHandle agent (host urip) of
               Inl e \<Rightarrow> Inl e
             | Inr d \<Rightarrow> Inr (urip\<lparr>host := d\<rparr>))
          else Inr urip)"

text \<open>Lines 38--57: the fetch, under \<^verbatim>\<open>retry(2, ...)\<close>.\<close>

definition fetchRecord ::
  "'v Imports \<Rightarrow> 'v BskyAgent \<Rightarrow> AtUri \<Rightarrow> World \<Rightarrow> (error + 'v option) \<times> World" where
  "fetchRecord deps agent urip w =
     retry 2 retry_cond
       (callGetRecord agent
          \<lparr>repo = host urip, collection = POSTGATE_COLLECTION deps, rkey = AtUri.rkey urip\<rparr>) w"

text \<open>
  Lines 21--76. \<open>Inr None\<close> is the \<^verbatim>\<open>undefined\<close> result, \<open>Inl\<close> a rejected promise.
\<close>

definition getPostgateRecord ::
  "'v Imports \<Rightarrow> 'v BskyAgent \<Rightarrow> string \<Rightarrow> World \<Rightarrow> (error + PostgateRecord option) \<times> World" where
  "getPostgateRecord deps agent postUri w =
     (case resolveUri deps agent postUri of
        Inl e \<Rightarrow> (Inl e, w)
      | Inr urip \<Rightarrow>
          (case fetchRecord deps agent urip w of
             (Inr data_value, w') \<Rightarrow>
               (case data_value of
                  None \<Rightarrow> (Inr None, w')
                | Some v \<Rightarrow>
                    (case Postgate_isRecord deps v of
                       Some r \<Rightarrow> (Inr (Some r), w')
                     | None \<Rightarrow> (Inr None, w')))
           | (Inl e, w') \<Rightarrow>
               if not_located e then (Inr None, w')
               else (Inl (Error ''Failed to get postgate record'' (Some e)), w')))"

subsection \<open>writePostgateRecord and upsertPostgate\<close>

text \<open>Lines 78--97.\<close>

definition writePostgateRecord ::
  "'v Imports \<Rightarrow> 'v BskyAgent \<Rightarrow> string \<Rightarrow> PostgateRecord \<Rightarrow> World \<Rightarrow> (error + unit) \<times> World" where
  "writePostgateRecord deps agent postUri postgate w =
     (case AtUri_new deps postUri of
        Inl e \<Rightarrow> (Inl e, w)
      | Inr postUrip \<Rightarrow>
          networkRetry deps 2
            (callPutRecord agent
               \<lparr>repo = session_did agent, collection = POSTGATE_COLLECTION deps,
                rkey = AtUri.rkey postUrip, record_written = postgate\<rparr>) w)"

text \<open>
  Lines 99--122. The callback is asynchronous: it yields a record, yields \<^verbatim>\<open>undefined\<close>,
  or rejects.
\<close>

definition upsertPostgate ::
  "'v Imports \<Rightarrow> 'v BskyAgent \<Rightarrow> string \<Rightarrow>
   (PostgateRecord option \<Rightarrow> error + PostgateRecord option) \<Rightarrow> World \<Rightarrow> (error + unit) \<times> World" where
  "upsertPostgate deps agent postUri callback w =
     (case getPostgateRecord deps agent postUri w of
        (Inl e, w') \<Rightarrow> (Inl e, w')
      | (Inr prev, w') \<Rightarrow>
          (case callback prev of
             Inl e \<Rightarrow> (Inl e, w')
           | Inr None \<Rightarrow> (Inr (), w')
           | Inr (Some next) \<Rightarrow> writePostgateRecord deps agent postUri next w'))"

subsection \<open>The two toggles\<close>

datatype DetachAction = Detach | Reattach

datatype EnableAction = Enable | Disable

text \<open>
  Lines 153--174, the callback handed to \<^verbatim>\<open>upsertPostgate\<close>. A filtered array is truthy
  even when empty, so \<^verbatim>\<open>prev.detachedQuotes?.filter(...) || []\<close> is the filtered array, and
  \<open>[]\<close> only when the field is absent.
\<close>

definition useToggleQuoteDetachmentMutation_callback ::
  "PostView \<Rightarrow> string \<Rightarrow> DetachAction \<Rightarrow> PostgateRecord option \<Rightarrow> error + PostgateRecord option" where
  "useToggleQuoteDetachmentMutation_callback pv quoteUri action prev =
     (case prev of
        Some p \<Rightarrow>
          (case action of
             Detach \<Rightarrow>
               Inr (Some (mergePostgateRecords p
                            \<lparr>detachedQuotes = Some [PostView.uri pv], quotepostRules = None\<rparr>))
           | Reattach \<Rightarrow>
               Inr (Some (p\<lparr>detachedQuotes :=
                            Some (case detachedQuotes p of
                                    Some qs \<Rightarrow> filter (\<lambda>u. u \<noteq> PostView.uri pv) qs
                                  | None \<Rightarrow> [])\<rparr>)))
      | None \<Rightarrow>
          (case action of
             Detach \<Rightarrow>
               Inr (Some (createPostgateRecord quoteUri
                            \<lparr>detachedQuotes = Some [PostView.uri pv], quotepostRules = None\<rparr>))
           | Reattach \<Rightarrow> Inr None))"

definition useToggleQuoteDetachmentMutation_mutationFn ::
  "'v Imports \<Rightarrow> 'v BskyAgent \<Rightarrow> PostView \<Rightarrow> string \<Rightarrow> DetachAction \<Rightarrow> World \<Rightarrow>
   (error + unit) \<times> World" where
  "useToggleQuoteDetachmentMutation_mutationFn deps agent pv quoteUri action w =
     upsertPostgate deps agent quoteUri
       (useToggleQuoteDetachmentMutation_callback pv quoteUri action) w"

text \<open>Lines 219--239.\<close>

definition useToggleQuotepostEnabledMutation_callback ::
  "string \<Rightarrow> EnableAction \<Rightarrow> PostgateRecord option \<Rightarrow> error + PostgateRecord option" where
  "useToggleQuotepostEnabledMutation_callback postUri action prev =
     (case prev of
        Some p \<Rightarrow>
          (case action of
             Disable \<Rightarrow>
               Inr (Some (mergePostgateRecords p
                            \<lparr>detachedQuotes = None,
                             quotepostRules = Some [Rule ''app.bsky.feed.postgate#disableRule'']\<rparr>))
           | Enable \<Rightarrow> Inr (Some (p\<lparr>quotepostRules := Some []\<rparr>)))
      | None \<Rightarrow>
          (case action of
             Disable \<Rightarrow>
               Inr (Some (createPostgateRecord postUri
                            \<lparr>detachedQuotes = None,
                             quotepostRules = Some [Rule ''app.bsky.feed.postgate#disableRule'']\<rparr>))
           | Enable \<Rightarrow> Inr None))"

definition useToggleQuotepostEnabledMutation_mutationFn ::
  "'v Imports \<Rightarrow> 'v BskyAgent \<Rightarrow> string \<Rightarrow> EnableAction \<Rightarrow> World \<Rightarrow> (error + unit) \<times> World" where
  "useToggleQuotepostEnabledMutation_mutationFn deps agent postUri action w =
     upsertPostgate deps agent postUri
       (useToggleQuotepostEnabledMutation_callback postUri action) w"

subsection \<open>Sample values for concrete runs\<close>

text \<open>
  A post URI with a handle as its host, imported names that parse exactly that URI, and
  three scripted agents: \<open>agent0\<close> fails the first \<^verbatim>\<open>getRecord\<close> and the first
  \<^verbatim>\<open>putRecord\<close> with a network error and then reports that the record cannot be
  located; \<open>agent1\<close> reports that at once; \<open>agent2\<close> fails every \<^verbatim>\<open>getRecord\<close> with
  a network error. The payload type is an optional record, the
  type guard accepting the payloads that hold one.
\<close>

definition uri0 :: string where
  "uri0 = ''at://alice.test/app.bsky.feed.post/3k''"

definition deps0 :: "PostgateRecord option Imports" where
  "deps0 =
     \<lparr>AtUri_new = (\<lambda>s. if s = uri0 then Inr \<lparr>host = ''alice.test'', rkey = ''3k''\<rparr>
                       else Inl (Error ''Invalid at uri'' None)),
      Postgate_isRecord = (\<lambda>v. v),
      POSTGATE_COLLECTION = ''app.bsky.feed.postgate'',
      isNetworkError = (\<lambda>e. message e = ''Network request failed'')\<rparr>"

definition agent0 :: "PostgateRecord option BskyAgent" where
  "agent0 =
     \<lparr>session_did = ''did:plc:alice'',
      resolveHandle = (\<lambda>h. if h = ''alice.test'' then Inr ''did:plc:alice''
                           else Inl (Error ''Unable to resolve handle'' None)),
      getRecord = (\<lambda>n p. if n = 0 then Inl (Error ''Network request failed'' None)
                         else Inl (Error ''Could not locate record: at://x'' None)),
      putRecord = (\<lambda>n p. if n = 0 then Inl (Error ''Network request failed'' None)
                         else Inr ())\<rparr>"

definition agent1 :: "PostgateRecord option BskyAgent" where
  "agent1 = agent0\<lparr>getRecord := (\<lambda>n p. Inl (Error ''Could not locate record: at://x'' None))\<rparr>"

definition agent2 :: "PostgateRecord option BskyAgent" where
  "agent2 = agent0\<lparr>getRecord := (\<lambda>n p. Inl (Error ''Network request failed'' None))\<rparr>"

definition world0 :: World where
  "world0 = \<lparr>getLog = [], putLog = []\<rparr>"

definition urip0 :: AtUri where
  "urip0 = \<lparr>host = ''did:plc:alice'', rkey = ''3k''\<rparr>"

definition key0 :: GetRecordParams where
  "key0 = \<lparr>repo = ''did:plc:alice'', collection = ''app.bsky.feed.postgate'', rkey = ''3k''\<rparr>"

definition gate1 :: PostgateRecord where
  "gate1 = \<lparr>detachedQuotes = None, quotepostRules = Some [Rule ''app.bsky.feed.postgate#disableRule''],
            post = ''at://did:plc:alice/app.bsky.feed.post/3k''\<rparr>"

definition pack0 :: StarterPackView where
  "pack0 = \<lparr>record_of = \<lparr>name = ''Pack'', description = Some ''hi''\<rparr>,
            listItemsSample = Some [\<lparr>subject = alice\<rparr>], feeds = None\<rparr>"

definition gate0 :: PostgateRecord where
  "gate0 = \<lparr>detachedQuotes = Some [''at://q1'', ''at://q2''], quotepostRules = Some [],
            post = ''at://did:plc:alice/app.bsky.feed.post/3k''\<rparr>"

section \<open>Properties of the wizard\<close>

lemma indexOf_steps:
  "indexOf steps Details = 0" "indexOf steps Profiles = 1" "indexOf steps Feeds = 2"
  by (simp_all add: steps_def)

lemma at_index_steps:
  "at_index steps 0 = Some Details" "at_index steps 1 = Some Profiles"
  "at_index steps 2 = Some Feeds"
  by (simp_all add: steps_def at_index_def)

lemma navigation_in_range:
  "(st \<noteq> Feeds \<longrightarrow> at_index steps (indexOf steps st + 1) \<noteq> None) \<and>
   (st \<noteq> Details \<longrightarrow> at_index steps (indexOf steps st - 1) \<noteq> None)"
  by (cases st) (simp_all add: indexOf_steps at_index_steps)

lemma navigation_Next:
  "navigation s Next =
     (case currentStep s of Details \<Rightarrow> s\<lparr>currentStep := Profiles\<rparr>
      | Profiles \<Rightarrow> s\<lparr>currentStep := Feeds\<rparr> | Feeds \<Rightarrow> s)"
  by (cases "currentStep s") (simp_all add: navigation_def indexOf_steps at_index_steps)

lemma navigation_Back:
  "navigation s Back =
     (case currentStep s of Details \<Rightarrow> s
      | Profiles \<Rightarrow> s\<lparr>currentStep := Details\<rparr> | Feeds \<Rightarrow> s\<lparr>currentStep := Profiles\<rparr>)"
  by (cases "currentStep s") (simp_all add: navigation_def indexOf_steps at_index_steps)

lemma navigation_other: "a \<noteq> Next \<Longrightarrow> a \<noteq> Back \<Longrightarrow> navigation s a = s"
  by (simp add: navigation_def)

lemma navigation_SetCanNext: "navigation s (SetCanNext b) = s"
  by (simp add: navigation_def)

lemma Boolean_iff: "Boolean x = (\<exists>d. x = Some d \<and> d \<noteq> [])"
  by (cases x) simp_all

lemma validity_canNext:
  "canNext (validity u) = (if currentStep u = Details then Boolean (State.description u) else True)"
  by (cases "currentStep u") (simp_all add: validity_def)

lemma validity_fields:
  "currentStep (validity u) = currentStep u" "State.description (validity u) = State.description u"
  "profiles (validity u) = profiles u" "State.feeds (validity u) = State.feeds u"
  "State.name (validity u) = State.name u" "processing (validity u) = processing u"
  by (cases "currentStep u"; simp add: validity_def)+

text \<open>
  C1. For every state and every action, the state the reducer returns has \<^verbatim>\<open>canNext\<close>
  equal to ``the description is present and non-empty'' when its \<^verbatim>\<open>currentStep\<close> is
  \<^verbatim>\<open>Details\<close>, and equal to true on every other step.
\<close>

theorem reducer_canNext:
  "canNext (reducer s a) =
     (if currentStep (reducer s a) = Details
      then (\<exists>d. State.description (reducer s a) = Some d \<and> d \<noteq> [])
      else True)"
  unfolding reducer_def by (simp add: validity_canNext validity_fields Boolean_iff)

text \<open>
  C8. The payload of \<^verbatim>\<open>SetCanNext\<close> has no effect: two such actions with any two
  payloads reduce a state to the same state, which is the incoming state with \<^verbatim>\<open>canNext\<close>
  recomputed from its step and description.
\<close>

theorem reducer_SetCanNext_payload_ignored:
  "reducer s (SetCanNext b1) = reducer s (SetCanNext b2)
   \<and> reducer s (SetCanNext b1) =
       s\<lparr>canNext := (if currentStep s = Details
                       then (\<exists>d. State.description s = Some d \<and> d \<noteq> [])
                       else True)\<rparr>"
proof -
  have "reducer s (SetCanNext b) = validity s" for b
    by (simp add: reducer_def navigation_SetCanNext)
  moreover have "validity s =
       s\<lparr>canNext := (if currentStep s = Details
                       then (\<exists>d. State.description s = Some d \<and> d \<noteq> [])
                       else True)\<rparr>"
    by (cases "currentStep s") (simp_all add: validity_def Boolean_iff)
  ultimately show ?thesis by simp
qed

lemma reducer_currentStep:
  "currentStep (reducer s a) =
     (case a of
        Next \<Rightarrow> (case currentStep s of Details \<Rightarrow> Profiles | _ \<Rightarrow> Feeds)
      | Back \<Rightarrow> (case currentStep s of Feeds \<Rightarrow> Profiles | _ \<Rightarrow> Details)
      | _ \<Rightarrow> currentStep s)"
  by (cases a; cases "currentStep s")
     (simp_all add: reducer_def validity_fields navigation_Next navigation_Back
        navigation_SetCanNext)

lemma reducer_profiles:
  "profiles (reducer s a) =
     (case a of
        AddProfile p \<Rightarrow> profiles s @ [p]
      | RemoveProfile d \<Rightarrow> filter (\<lambda>p. did p \<noteq> d) (profiles s)
      | _ \<Rightarrow> profiles s)"
  by (cases a; cases "currentStep s")
     (simp_all add: reducer_def validity_fields navigation_Next navigation_Back
        navigation_SetCanNext)

lemma reducer_keeps_unique:
  assumes "distinct (map did (profiles s))"
    and "case a of AddProfile p \<Rightarrow> did p \<notin> set (map did (profiles s)) | _ \<Rightarrow> True"
  shows "distinct (map did (profiles (reducer s a)))"
  using assms by (cases a) (simp_all add: reducer_profiles distinct_map_filter)

lemma fresh_adds_keep_unique:
  "distinct (map did (profiles s)) \<Longrightarrow> fresh_adds s as \<Longrightarrow>
     distinct (map did (profiles (foldl reducer s as)))"
proof (induction as arbitrary: s)
  case Nil
  then show ?case by simp
next
  case (Cons a as)
  from Cons.prems have "distinct (map did (profiles (reducer s a)))"
    by (intro reducer_keeps_unique) simp_all
  moreover from Cons.prems have "fresh_adds (reducer s a) as" by simp
  ultimately show ?case using Cons.IH by simp
qed

lemma reducer_AddProfile_unique_iff:
  "distinct (map did (profiles (reducer s (AddProfile p)))) \<longleftrightarrow>
     distinct (map did (profiles s)) \<and> did p \<notin> set (map did (profiles s))"
  by (auto simp: reducer_profiles)

text \<open>
  C5, as amended. Starting from a state whose profiles are pairwise distinct by \<^verbatim>\<open>did\<close>
  (the empty initial state is one), every dispatch sequence in which each \<^verbatim>\<open>AddProfile\<close>
  carries a \<^verbatim>\<open>did\<close> not yet among the profiles leads to a state whose profiles are
  pairwise distinct by \<^verbatim>\<open>did\<close>. \<^verbatim>\<open>AddProfile\<close> appends unconditionally: the profiles
  after it are the old ones followed by the new one, so they are pairwise distinct by
  \<^verbatim>\<open>did\<close> exactly when the old ones were and the new \<^verbatim>\<open>did\<close> was not among them; a
  \<^verbatim>\<open>did\<close> already present always yields a duplicate. Every other action preserves
  distinctness.
\<close>

theorem profiles_unique_when_adds_fresh:
  "(distinct (map did (profiles s)) \<and> fresh_adds s as \<longrightarrow>
      distinct (map did (profiles (foldl reducer s as))))
   \<and> profiles (reducer s (AddProfile p)) = profiles s @ [p]
   \<and> (distinct (map did (profiles (reducer s (AddProfile p)))) \<longleftrightarrow>
        distinct (map did (profiles s)) \<and> did p \<notin> set (map did (profiles s)))
   \<and> (did p \<in> set (map did (profiles s)) \<longrightarrow>
        \<not> distinct (map did (profiles (reducer s (AddProfile p)))))
   \<and> ((\<forall>q. a \<noteq> AddProfile q) \<and> distinct (map did (profiles s)) \<longrightarrow>
        distinct (map did (profiles (reducer s a))))"
proof (intro conjI)
  show "distinct (map did (profiles s)) \<and> fresh_adds s as \<longrightarrow>
      distinct (map did (profiles (foldl reducer s as)))"
    by (simp add: fresh_adds_keep_unique)
  show "profiles (reducer s (AddProfile p)) = profiles s @ [p]"
    by (simp add: reducer_profiles)
  show "distinct (map did (profiles (reducer s (AddProfile p)))) \<longleftrightarrow>
        distinct (map did (profiles s)) \<and> did p \<notin> set (map did (profiles s))"
    by (rule reducer_AddProfile_unique_iff)
  show "did p \<in> set (map did (profiles s)) \<longrightarrow>
        \<not> distinct (map did (profiles (reducer s (AddProfile p))))"
    by (simp add: reducer_AddProfile_unique_iff)
  show "(\<forall>q. a \<noteq> AddProfile q) \<and> distinct (map did (profiles s)) \<longrightarrow>
        distinct (map did (profiles (reducer s a)))"
  proof
    assume h: "(\<forall>q. a \<noteq> AddProfile q) \<and> distinct (map did (profiles s))"
    then have "case a of AddProfile p \<Rightarrow> did p \<notin> set (map did (profiles s)) | _ \<Rightarrow> True"
      by (cases a) simp_all
    with h show "distinct (map did (profiles (reducer s a)))"
      by (intro reducer_keeps_unique) simp_all
  qed
qed

theorem profiles_unique_counterexample:
  "\<not> distinct (map did (profiles
       (foldl reducer (createInitialState isRecord0 None) [AddProfile alice, AddProfile alice])))"
  by (simp add: reducer_profiles createInitialState_def)

theorem profiles_unique_when_adds_fresh_witness:
  "distinct (map did (profiles
       (foldl reducer (createInitialState isRecord0 None)
          [AddProfile alice, AddProfile bob, RemoveProfile (did alice), Next, AddProfile alice])))
   \<and> profiles (foldl reducer (createInitialState isRecord0 None) [AddProfile alice, AddProfile bob])
       = [alice, bob]
   \<and> profiles (reducer
         (foldl reducer (createInitialState isRecord0 None) [AddProfile alice, AddProfile bob])
         (AddProfile alice)) = [alice, bob, alice]
   \<and> \<not> distinct (map did (profiles (reducer
         (foldl reducer (createInitialState isRecord0 None) [AddProfile alice, AddProfile bob])
         (AddProfile alice))))"
proof -
  let ?init = "createInitialState isRecord0 None"
  let ?s = "foldl reducer ?init [AddProfile alice, AddProfile bob]"
  have i: "distinct (map did (profiles ?init))" by (simp add: createInitialState_def)
  have f: "fresh_adds ?init
             [AddProfile alice, AddProfile bob, RemoveProfile (did alice), Next, AddProfile alice]"
    by (simp add: reducer_profiles createInitialState_def alice_def bob_def)
  have s: "profiles ?s = [alice, bob]"
    by (simp add: reducer_profiles createInitialState_def)
  then have m: "did alice \<in> set (map did (profiles ?s))" by simp
  from profiles_unique_when_adds_fresh[of ?init
      "[AddProfile alice, AddProfile bob, RemoveProfile (did alice), Next, AddProfile alice]"] i f
  have a: "distinct (map did (profiles
       (foldl reducer ?init
          [AddProfile alice, AddProfile bob, RemoveProfile (did alice), Next, AddProfile alice])))"
    by blast
  from profiles_unique_when_adds_fresh[of ?s "[]" alice] s m
  have "profiles (reducer ?s (AddProfile alice)) = [alice, bob, alice]
        \<and> \<not> distinct (map did (profiles (reducer ?s (AddProfile alice))))"
    by simp
  with a s show ?thesis by simp
qed

text \<open>
  C4. For every state and action the position of the resulting step in
  \<^verbatim>\<open>[Details, Profiles, Feeds]\<close> is the previous position, or one more, or one less (both
  positions being real positions \<open>0..2\<close>); \<^verbatim>\<open>Next\<close> on \<^verbatim>\<open>Feeds\<close> and \<^verbatim>\<open>Back\<close> on
  \<^verbatim>\<open>Details\<close> leave the step unchanged.
\<close>

theorem reducer_step_adjacent:
  "(let i = indexOf steps (currentStep s); j = indexOf steps (currentStep (reducer s a))
    in 0 \<le> i \<and> i \<le> 2 \<and> 0 \<le> j \<and> j \<le> 2 \<and> (j = i \<or> j = i + 1 \<or> j = i - 1))
   \<and> (currentStep s = Feeds \<longrightarrow> currentStep (reducer s Next) = currentStep s)
   \<and> (currentStep s = Details \<longrightarrow> currentStep (reducer s Back) = currentStep s)"
  by (cases a; cases "currentStep s") (simp_all add: reducer_currentStep indexOf_steps Let_def)

text \<open>
  C7. The initial state has \<^verbatim>\<open>canNext\<close> false on both construction paths: without a
  starter pack, and with one, whatever the type guard says of its record and whatever
  description it seeds.
\<close>

theorem createInitialState_canNext:
  "canNext (createInitialState isRecord None) = False \<and>
   canNext (createInitialState isRecord (Some sp)) = False"
  by (simp add: createInitialState_def)

section \<open>Properties of the postgate module\<close>

subsection \<open>Substrings, retries and the trace\<close>

lemma str_includes_iff: "str_includes s sub \<longleftrightarrow> (\<exists>pre suf. s = pre @ sub @ suf)"
proof (induction s)
  case Nil
  then show ?case by auto
next
  case (Cons c cs)
  show ?case
  proof
    assume "str_includes (c # cs) sub"
    then consider "prefix sub (c # cs)" | "str_includes cs sub" by auto
    then show "\<exists>pre suf. c # cs = pre @ sub @ suf"
    proof cases
      case 1
      then obtain suf where "c # cs = sub @ suf" by (auto simp: prefix_def)
      then have "c # cs = [] @ sub @ suf" by simp
      then show ?thesis by blast
    next
      case 2
      with Cons.IH obtain pre suf where "cs = pre @ sub @ suf" by blast
      then have "c # cs = (c # pre) @ sub @ suf" by simp
      then show ?thesis by blast
    qed
  next
    assume "\<exists>pre suf. c # cs = pre @ sub @ suf"
    then obtain pre suf where eq: "c # cs = pre @ sub @ suf" by blast
    show "str_includes (c # cs) sub"
    proof (cases pre)
      case Nil
      with eq have "prefix sub (c # cs)" by (simp add: prefix_def)
      then show ?thesis by simp
    next
      case (Cons d pre')
      with eq have "cs = pre' @ sub @ suf" by simp
      with Cons.IH have "str_includes cs sub" by blast
      then show ?thesis by simp
    qed
  qed
qed

lemma retry_rejected:
  "fn w = (Inl e, w') \<Longrightarrow> \<not> cond e \<Longrightarrow> retry n cond fn w = (Inl e, w')"
  by (cases n) simp_all

lemma retry_put_log:
  "\<exists>k. 1 \<le> k \<and> k \<le> Suc n \<and>
       putLog (snd (retry n cond (callPutRecord agent p) w)) = putLog w @ replicate k p"
proof (induction n arbitrary: w)
  case 0
  have "putLog (snd (retry 0 cond (callPutRecord agent p) w)) = putLog w @ replicate 1 p"
    by (simp add: callPutRecord_def)
  then show ?case by (intro exI[of _ 1]) simp
next
  case (Suc n)
  let ?w' = "w\<lparr>putLog := putLog w @ [p]\<rparr>"
  show ?case
  proof (cases "putRecord agent (length (putLog w)) p")
    case (Inr v)
    then have "putLog (snd (retry (Suc n) cond (callPutRecord agent p) w)) = putLog w @ replicate 1 p"
      by (simp add: callPutRecord_def)
    then show ?thesis by (intro exI[of _ 1]) simp
  next
    case (Inl e)
    show ?thesis
    proof (cases "cond e")
      case False
      with Inl have "putLog (snd (retry (Suc n) cond (callPutRecord agent p) w)) = putLog w @ replicate 1 p"
        by (simp add: callPutRecord_def)
      then show ?thesis by (intro exI[of _ 1]) simp
    next
      case True
      from Suc.IH[of ?w'] obtain k where k: "1 \<le> k" "k \<le> Suc n"
        "putLog (snd (retry n cond (callPutRecord agent p) ?w')) = putLog ?w' @ replicate k p"
        by blast
      from Inl True have "retry (Suc n) cond (callPutRecord agent p) w
          = retry n cond (callPutRecord agent p) ?w'"
        by (simp add: callPutRecord_def)
      with k have "putLog (snd (retry (Suc n) cond (callPutRecord agent p) w))
          = putLog w @ replicate (Suc k) p"
        by simp
      with k show ?thesis by (intro exI[of _ "Suc k"]) simp
    qed
  qed
qed

lemma retry_get_putLog:
  "putLog (snd (retry n cond (callGetRecord agent p) w)) = putLog w"
proof (induction n arbitrary: w)
  case 0
  show ?case by (simp add: callGetRecord_def)
next
  case (Suc n)
  show ?case
  proof (cases "getRecord agent (length (getLog w)) p")
    case (Inr v)
    then show ?thesis by (simp add: callGetRecord_def)
  next
    case (Inl e)
    then show ?thesis
      using Suc.IH[of "w\<lparr>getLog := getLog w @ [p]\<rparr>"]
      by (simp add: callGetRecord_def)
  qed
qed

lemma retry_get_attempt:
  "\<exists>k. k \<le> n \<and>
       fst (retry n cond (callGetRecord agent p) w) = getRecord agent (length (getLog w) + k) p \<and>
       getLog (snd (retry n cond (callGetRecord agent p) w)) = getLog w @ replicate (Suc k) p"
proof (induction n arbitrary: w)
  case 0
  show ?case by (simp add: callGetRecord_def)
next
  case (Suc n)
  let ?w' = "w\<lparr>getLog := getLog w @ [p]\<rparr>"
  show ?case
  proof (cases "getRecord agent (length (getLog w)) p")
    case (Inr v)
    then have "fst (retry (Suc n) cond (callGetRecord agent p) w)
                 = getRecord agent (length (getLog w) + 0) p \<and>
               getLog (snd (retry (Suc n) cond (callGetRecord agent p) w))
                 = getLog w @ replicate (Suc 0) p"
      by (simp add: callGetRecord_def)
    then show ?thesis by (intro exI[of _ 0]) simp
  next
    case (Inl e)
    show ?thesis
    proof (cases "cond e")
      case False
      with Inl have "fst (retry (Suc n) cond (callGetRecord agent p) w)
                 = getRecord agent (length (getLog w) + 0) p \<and>
               getLog (snd (retry (Suc n) cond (callGetRecord agent p) w))
                 = getLog w @ replicate (Suc 0) p"
        by (simp add: callGetRecord_def)
      then show ?thesis by (intro exI[of _ 0]) simp
    next
      case True
      from Suc.IH[of ?w'] obtain k where k: "k \<le> n"
        "fst (retry n cond (callGetRecord agent p) ?w') = getRecord agent (length (getLog ?w') + k) p"
        "getLog (snd (retry n cond (callGetRecord agent p) ?w')) = getLog ?w' @ replicate (Suc k) p"
        by blast
      from Inl True have "retry (Suc n) cond (callGetRecord agent p) w
          = retry n cond (callGetRecord agent p) ?w'"
        by (simp add: callGetRecord_def)
      with k have "fst (retry (Suc n) cond (callGetRecord agent p) w)
                 = getRecord agent (length (getLog w) + Suc k) p \<and>
               getLog (snd (retry (Suc n) cond (callGetRecord agent p) w))
                 = getLog w @ replicate (Suc (Suc k)) p"
        by simp
      with k show ?thesis by (intro exI[of _ "Suc k"]) simp
    qed
  qed
qed

lemma getPostgateRecord_putLog:
  "putLog (snd (getPostgateRecord deps agent postUri w)) = putLog w"
proof (cases "resolveUri deps agent postUri")
  case (Inl e)
  then show ?thesis by (simp add: getPostgateRecord_def)
next
  case (Inr urip)
  obtain r w' where f: "fetchRecord deps agent urip w = (r, w')" by (cases "fetchRecord deps agent urip w")
  have "putLog (snd (fetchRecord deps agent urip w)) = putLog w"
    unfolding fetchRecord_def by (rule retry_get_putLog)
  with f have "putLog w' = putLog w" by simp
  with Inr f show ?thesis
    by (simp add: getPostgateRecord_def split: sum.splits option.splits)
qed

lemma getPostgateRecord_parsed:
  "fst (getPostgateRecord deps agent postUri w) = Inr prev \<Longrightarrow> \<exists>u. AtUri_new deps postUri = Inr u"
  by (cases "AtUri_new deps postUri")
     (simp_all add: getPostgateRecord_def resolveUri_def)

lemma fetchRecord_attempt:
  "\<exists>k. k \<le> 2 \<and>
       fst (fetchRecord deps agent urip w) =
         getRecord agent (length (getLog w) + k)
           \<lparr>repo = host urip, collection = POSTGATE_COLLECTION deps, rkey = AtUri.rkey urip\<rparr>"
  unfolding fetchRecord_def using retry_get_attempt[of 2] by blast

lemma getPostgateRecord_resolved:
  "resolveUri deps agent postUri = Inr urip \<Longrightarrow>
   fst (getPostgateRecord deps agent postUri w) =
     (case fst (fetchRecord deps agent urip w) of
        Inr None \<Rightarrow> Inr None
      | Inr (Some v) \<Rightarrow> Inr (Postgate_isRecord deps v)
      | Inl e \<Rightarrow> if not_located e then Inr None
                 else Inl (Error ''Failed to get postgate record'' (Some e)))"
  by (cases "fetchRecord deps agent urip w")
     (simp add: getPostgateRecord_def split: sum.splits option.splits)

lemma getPostgateRecord_unresolved:
  "resolveUri deps agent postUri = Inl e \<Longrightarrow> getPostgateRecord deps agent postUri w = (Inl e, w)"
  by (simp add: getPostgateRecord_def)

text \<open>
  C2. For every post URI, \<^verbatim>\<open>getPostgateRecord\<close> returns \<^verbatim>\<open>undefined\<close> exactly when
  the URI was parsed and resolved and then either the fetch ended in an error whose
  message says the record could not be located, or the fetch succeeded and its payload is
  missing or rejected by the type guard. A fetch that ended in any other error makes it
  throw \<^verbatim>\<open>Error('Failed to get postgate record', {cause: e})\<close> with that error as the
  cause. What the fetch ended in is the remote's answer to one of at most three attempts.
\<close>

theorem getPostgateRecord_absent_cases:
  "(fst (getPostgateRecord deps agent postUri w) = Inr None \<longleftrightarrow>
      (\<exists>urip. resolveUri deps agent postUri = Inr urip \<and>
         ((\<exists>e. fst (fetchRecord deps agent urip w) = Inl e \<and> not_located e) \<or>
          fst (fetchRecord deps agent urip w) = Inr None \<or>
          (\<exists>v. fst (fetchRecord deps agent urip w) = Inr (Some v) \<and>
               Postgate_isRecord deps v = None))))
   \<and> (\<forall>urip e. resolveUri deps agent postUri = Inr urip \<and>
          fst (fetchRecord deps agent urip w) = Inl e \<and> \<not> not_located e \<longrightarrow>
          fst (getPostgateRecord deps agent postUri w)
            = Inl (Error ''Failed to get postgate record'' (Some e)))
   \<and> (\<forall>urip. resolveUri deps agent postUri = Inr urip \<longrightarrow>
          (\<exists>k. k \<le> 2 \<and>
             fst (fetchRecord deps agent urip w) =
               getRecord agent (length (getLog w) + k)
                 \<lparr>repo = host urip, collection = POSTGATE_COLLECTION deps,
                  rkey = AtUri.rkey urip\<rparr>))"
proof (cases "resolveUri deps agent postUri")
  case (Inl e)
  then show ?thesis by (simp add: getPostgateRecord_unresolved)
next
  case (Inr urip)
  have "fst (getPostgateRecord deps agent postUri w) = Inr None \<longleftrightarrow>
      (\<exists>e. fst (fetchRecord deps agent urip w) = Inl e \<and> not_located e) \<or>
      fst (fetchRecord deps agent urip w) = Inr None \<or>
      (\<exists>v. fst (fetchRecord deps agent urip w) = Inr (Some v) \<and> Postgate_isRecord deps v = None)"
    by (simp add: getPostgateRecord_resolved[OF Inr] split: sum.splits option.splits)
  moreover have "\<forall>e. fst (fetchRecord deps agent urip w) = Inl e \<and> \<not> not_located e \<longrightarrow>
          fst (getPostgateRecord deps agent postUri w)
            = Inl (Error ''Failed to get postgate record'' (Some e))"
    by (simp add: getPostgateRecord_resolved[OF Inr])
  moreover note fetchRecord_attempt[of deps agent urip w]
  ultimately show ?thesis using Inr by simp
qed

lemma getPostgateRecord_not_located_first:
  assumes r: "resolveUri deps agent postUri = Inr urip"
    and g: "getRecord agent (length (getLog w))
              \<lparr>repo = host urip, collection = POSTGATE_COLLECTION deps, rkey = AtUri.rkey urip\<rparr> = Inl e"
    and n: "not_located e"
  shows "getPostgateRecord deps agent postUri w =
           (Inr None, w\<lparr>getLog := getLog w @
              [\<lparr>repo = host urip, collection = POSTGATE_COLLECTION deps, rkey = AtUri.rkey urip\<rparr>]\<rparr>)"
proof -
  let ?p = "\<lparr>repo = host urip, collection = POSTGATE_COLLECTION deps, rkey = AtUri.rkey urip\<rparr>"
  have c: "callGetRecord agent ?p w = (Inl e, w\<lparr>getLog := getLog w @ [?p]\<rparr>)"
    using g by (simp add: callGetRecord_def)
  have "\<not> retry_cond e" using n by (simp add: retry_cond_def)
  with c have "fetchRecord deps agent urip w = (Inl e, w\<lparr>getLog := getLog w @ [?p]\<rparr>)"
    unfolding fetchRecord_def by (rule retry_rejected)
  with r n show ?thesis by (simp add: getPostgateRecord_def)
qed

lemma getPostgateRecord_world:
  "resolveUri deps agent postUri = Inr urip \<Longrightarrow>
   snd (getPostgateRecord deps agent postUri w) = snd (fetchRecord deps agent urip w)"
  by (cases "fetchRecord deps agent urip w")
     (simp add: getPostgateRecord_def split: sum.splits option.splits)

lemma retry_accepted:
  "fn w = (Inl e, w') \<Longrightarrow> cond e \<Longrightarrow> retry (Suc n) cond fn w = retry n cond fn w'"
  by simp

lemma getPostgateRecord_retried_first:
  assumes r: "resolveUri deps agent postUri = Inr urip"
    and g: "getRecord agent (length (getLog w))
              \<lparr>repo = host urip, collection = POSTGATE_COLLECTION deps, rkey = AtUri.rkey urip\<rparr> = Inl e"
    and n: "\<not> not_located e"
  shows "\<exists>k. 1 \<le> k \<and> k \<le> 2 \<and>
           getLog (snd (getPostgateRecord deps agent postUri w)) =
             getLog w @ replicate (Suc k)
               \<lparr>repo = host urip, collection = POSTGATE_COLLECTION deps, rkey = AtUri.rkey urip\<rparr>"
proof -
  let ?p = "\<lparr>repo = host urip, collection = POSTGATE_COLLECTION deps, rkey = AtUri.rkey urip\<rparr>"
  let ?w' = "w\<lparr>getLog := getLog w @ [?p]\<rparr>"
  have c: "callGetRecord agent ?p w = (Inl e, ?w')"
    using g by (simp add: callGetRecord_def)
  have "retry_cond e" using n by (simp add: retry_cond_def)
  with c have "retry (Suc (Suc 0)) retry_cond (callGetRecord agent ?p) w
                 = retry (Suc 0) retry_cond (callGetRecord agent ?p) ?w'"
    by (rule retry_accepted)
  then have f: "fetchRecord deps agent urip w = retry (Suc 0) retry_cond (callGetRecord agent ?p) ?w'"
    by (simp add: fetchRecord_def numeral_2_eq_2)
  from retry_get_attempt[of "Suc 0" retry_cond agent ?p ?w'] obtain k where
    k: "k \<le> Suc 0"
    "getLog (snd (retry (Suc 0) retry_cond (callGetRecord agent ?p) ?w'))
       = getLog ?w' @ replicate (Suc k) ?p"
    by blast
  from k(2) f have "getLog (snd (fetchRecord deps agent urip w))
       = getLog w @ replicate (Suc (Suc k)) ?p"
    by simp
  with k(1) show ?thesis
    by (intro exI[of _ "Suc k"]) (simp add: getPostgateRecord_world[OF r])
qed

text \<open>
  C9. An error counts as ``not found'' on its message alone: the test of the source holds
  exactly when the message contains \<^verbatim>\<open>Could not locate record:\<close>, and the retry
  predicate answers false exactly then. When the message contains it, a retry whose
  operation fails with that error stops there without another attempt,
  \<^verbatim>\<open>getPostgateRecord\<close> returns \<^verbatim>\<open>undefined\<close> when the fetch ends in that error, and
  when the first attempt fails with it exactly one \<^verbatim>\<open>getRecord\<close> call is made. When the
  message does not contain it, a retry with retries left runs the operation again,
  \<^verbatim>\<open>getPostgateRecord\<close> throws the wrapped error when the fetch ends in that error, and
  when the first attempt fails with it at least one more \<^verbatim>\<open>getRecord\<close> call is made.
\<close>

theorem not_located_by_substring:
  "(not_located e \<longleftrightarrow> (\<exists>pre suf. message e = pre @ ''Could not locate record:'' @ suf))
   \<and> (retry_cond e \<longleftrightarrow> \<not> (\<exists>pre suf. message e = pre @ ''Could not locate record:'' @ suf))
   \<and> ((\<exists>pre suf. message e = pre @ ''Could not locate record:'' @ suf) \<longrightarrow>
        (\<forall>n fn (w :: World) w'. fn w = (Inl e :: error + 'v option, w') \<longrightarrow>
           retry n retry_cond fn w = (Inl e, w'))
      \<and> (\<forall>(deps :: 'v Imports) agent postUri urip w.
           resolveUri deps agent postUri = Inr urip \<and>
           fst (fetchRecord deps agent urip w) = Inl e \<longrightarrow>
           fst (getPostgateRecord deps agent postUri w) = Inr None)
      \<and> (\<forall>(deps :: 'v Imports) agent postUri urip w.
           resolveUri deps agent postUri = Inr urip \<and>
           getRecord agent (length (getLog w))
             \<lparr>repo = host urip, collection = POSTGATE_COLLECTION deps, rkey = AtUri.rkey urip\<rparr>
             = Inl e \<longrightarrow>
           getPostgateRecord deps agent postUri w =
             (Inr None, w\<lparr>getLog := getLog w @
                [\<lparr>repo = host urip, collection = POSTGATE_COLLECTION deps,
                  rkey = AtUri.rkey urip\<rparr>]\<rparr>)))
   \<and> (\<not> (\<exists>pre suf. message e = pre @ ''Could not locate record:'' @ suf) \<longrightarrow>
        (\<forall>n fn (w :: World) w'. fn w = (Inl e :: error + 'v option, w') \<longrightarrow>
           retry (Suc n) retry_cond fn w = retry n retry_cond fn w')
      \<and> (\<forall>(deps :: 'v Imports) agent postUri urip w.
           resolveUri deps agent postUri = Inr urip \<and>
           fst (fetchRecord deps agent urip w) = Inl e \<longrightarrow>
           fst (getPostgateRecord deps agent postUri w)
             = Inl (Error ''Failed to get postgate record'' (Some e)))
      \<and> (\<forall>(deps :: 'v Imports) agent postUri urip w.
           resolveUri deps agent postUri = Inr urip \<and>
           getRecord agent (length (getLog w))
             \<lparr>repo = host urip, collection = POSTGATE_COLLECTION deps, rkey = AtUri.rkey urip\<rparr>
             = Inl e \<longrightarrow>
           (\<exists>k. 1 \<le> k \<and> k \<le> 2 \<and>
              getLog (snd (getPostgateRecord deps agent postUri w)) =
                getLog w @ replicate (Suc k)
                  \<lparr>repo = host urip, collection = POSTGATE_COLLECTION deps,
                   rkey = AtUri.rkey urip\<rparr>)))"
  (is "?A \<and> ?B \<and> (?M \<longrightarrow> ?Y) \<and> (\<not> ?M \<longrightarrow> ?N)")
proof -
  have n: "not_located e \<longleftrightarrow> (\<exists>pre suf. message e = pre @ ''Could not locate record:'' @ suf)"
    unfolding not_located_def by (rule str_includes_iff)
  have c: "retry_cond e \<longleftrightarrow> \<not> not_located e" by (simp add: retry_cond_def)
  have yes: "(\<forall>n fn (w :: World) w'. fn w = (Inl e :: error + 'v option, w') \<longrightarrow>
           retry n retry_cond fn w = (Inl e, w'))
      \<and> (\<forall>(deps :: 'v Imports) agent postUri urip w.
           resolveUri deps agent postUri = Inr urip \<and>
           fst (fetchRecord deps agent urip w) = Inl e \<longrightarrow>
           fst (getPostgateRecord deps agent postUri w) = Inr None)
      \<and> (\<forall>(deps :: 'v Imports) agent postUri urip w.
           resolveUri deps agent postUri = Inr urip \<and>
           getRecord agent (length (getLog w))
             \<lparr>repo = host urip, collection = POSTGATE_COLLECTION deps, rkey = AtUri.rkey urip\<rparr>
             = Inl e \<longrightarrow>
           getPostgateRecord deps agent postUri w =
             (Inr None, w\<lparr>getLog := getLog w @
                [\<lparr>repo = host urip, collection = POSTGATE_COLLECTION deps,
                  rkey = AtUri.rkey urip\<rparr>]\<rparr>))"
    if l: "not_located e"
  proof (intro conjI)
    from l c have "\<not> retry_cond e" by simp
    then show "\<forall>n fn (w :: World) w'. fn w = (Inl e :: error + 'v option, w') \<longrightarrow>
           retry n retry_cond fn w = (Inl e, w')"
      by (simp add: retry_rejected)
    show "\<forall>(deps :: 'v Imports) agent postUri urip w.
           resolveUri deps agent postUri = Inr urip \<and>
           fst (fetchRecord deps agent urip w) = Inl e \<longrightarrow>
           fst (getPostgateRecord deps agent postUri w) = Inr None"
      using l by (simp add: getPostgateRecord_resolved)
    show "\<forall>(deps :: 'v Imports) agent postUri urip w.
           resolveUri deps agent postUri = Inr urip \<and>
           getRecord agent (length (getLog w))
             \<lparr>repo = host urip, collection = POSTGATE_COLLECTION deps, rkey = AtUri.rkey urip\<rparr>
             = Inl e \<longrightarrow>
           getPostgateRecord deps agent postUri w =
             (Inr None, w\<lparr>getLog := getLog w @
                [\<lparr>repo = host urip, collection = POSTGATE_COLLECTION deps,
                  rkey = AtUri.rkey urip\<rparr>]\<rparr>)"
      using l by (blast intro: getPostgateRecord_not_located_first)
  qed
  have no: "(\<forall>n fn (w :: World) w'. fn w = (Inl e :: error + 'v option, w') \<longrightarrow>
           retry (Suc n) retry_cond fn w = retry n retry_cond fn w')
      \<and> (\<forall>(deps :: 'v Imports) agent postUri urip w.
           resolveUri deps agent postUri = Inr urip \<and>
           fst (fetchRecord deps agent urip w) = Inl e \<longrightarrow>
           fst (getPostgateRecord deps agent postUri w)
             = Inl (Error ''Failed to get postgate record'' (Some e)))
      \<and> (\<forall>(deps :: 'v Imports) agent postUri urip w.
           resolveUri deps agent postUri = Inr urip \<and>
           getRecord agent (length (getLog w))
             \<lparr>repo = host urip, collection = POSTGATE_COLLECTION deps, rkey = AtUri.rkey urip\<rparr>
             = Inl e \<longrightarrow>
           (\<exists>k. 1 \<le> k \<and> k \<le> 2 \<and>
              getLog (snd (getPostgateRecord deps agent postUri w)) =
                getLog w @ replicate (Suc k)
                  \<lparr>repo = host urip, collection = POSTGATE_COLLECTION deps,
                   rkey = AtUri.rkey urip\<rparr>))"
    if l: "\<not> not_located e"
  proof (intro conjI)
    from l c have "retry_cond e" by simp
    then show "\<forall>n fn (w :: World) w'. fn w = (Inl e :: error + 'v option, w') \<longrightarrow>
           retry (Suc n) retry_cond fn w = retry n retry_cond fn w'"
      by simp
    show "\<forall>(deps :: 'v Imports) agent postUri urip w.
           resolveUri deps agent postUri = Inr urip \<and>
           fst (fetchRecord deps agent urip w) = Inl e \<longrightarrow>
           fst (getPostgateRecord deps agent postUri w)
             = Inl (Error ''Failed to get postgate record'' (Some e))"
      using l by (simp add: getPostgateRecord_resolved)
    show "\<forall>(deps :: 'v Imports) agent postUri urip w.
           resolveUri deps agent postUri = Inr urip \<and>
           getRecord agent (length (getLog w))
             \<lparr>repo = host urip, collection = POSTGATE_COLLECTION deps, rkey = AtUri.rkey urip\<rparr>
             = Inl e \<longrightarrow>
           (\<exists>k. 1 \<le> k \<and> k \<le> 2 \<and>
              getLog (snd (getPostgateRecord deps agent postUri w)) =
                getLog w @ replicate (Suc k)
                  \<lparr>repo = host urip, collection = POSTGATE_COLLECTION deps,
                   rkey = AtUri.rkey urip\<rparr>)"
      using l by (blast intro: getPostgateRecord_retried_first)
  qed
  have c': "retry_cond e \<longleftrightarrow>
      \<not> (\<exists>pre suf. message e = pre @ ''Could not locate record:'' @ suf)"
    unfolding n[symmetric] by (rule c)
  have y: "?M \<longrightarrow> ?Y"
  proof
    assume ?M
    then have "not_located e" by (rule n[THEN iffD2])
    then show ?Y by (rule yes)
  qed
  have z: "\<not> ?M \<longrightarrow> ?N"
  proof
    assume "\<not> ?M"
    then have "\<not> not_located e" by (rule contrapos_nn) (rule n[THEN iffD1])
    then show ?N by (rule no)
  qed
  show ?thesis by (rule conjI[OF n conjI[OF c' conjI[OF y z]]])
qed

lemma writePostgateRecord_putLog:
  "AtUri_new deps postUri = Inr u \<Longrightarrow>
   \<exists>k. 1 \<le> k \<and> k \<le> 3 \<and>
     putLog (snd (writePostgateRecord deps agent postUri next w)) =
       putLog w @ replicate k
         \<lparr>repo = session_did agent, collection = POSTGATE_COLLECTION deps,
          rkey = AtUri.rkey u, record_written = next\<rparr>"
  using retry_put_log[of 2 "isNetworkError deps" agent _ w]
  by (simp add: writePostgateRecord_def networkRetry_def)

lemma upsertPostgate_fetch_failed:
  "fst (getPostgateRecord deps agent postUri w) = Inl e \<Longrightarrow>
   upsertPostgate deps agent postUri callback w = (Inl e, snd (getPostgateRecord deps agent postUri w))"
  by (cases "getPostgateRecord deps agent postUri w") (simp add: upsertPostgate_def)

lemma upsertPostgate_fetched:
  "fst (getPostgateRecord deps agent postUri w) = Inr prev \<Longrightarrow>
   upsertPostgate deps agent postUri callback w =
     (case callback prev of
        Inl e \<Rightarrow> (Inl e, snd (getPostgateRecord deps agent postUri w))
      | Inr None \<Rightarrow> (Inr (), snd (getPostgateRecord deps agent postUri w))
      | Inr (Some next) \<Rightarrow>
          writePostgateRecord deps agent postUri next (snd (getPostgateRecord deps agent postUri w)))"
  by (cases "getPostgateRecord deps agent postUri w")
     (auto simp: upsertPostgate_def split: sum.splits option.splits)

lemma upsertPostgate_no_write:
  assumes "\<not> (\<exists>prev next. fst (getPostgateRecord deps agent postUri w) = Inr prev \<and>
                callback prev = Inr (Some next))"
  shows "putLog (snd (upsertPostgate deps agent postUri callback w)) = putLog w"
proof (cases "fst (getPostgateRecord deps agent postUri w)")
  case (Inl e)
  then show ?thesis
    by (simp add: upsertPostgate_fetch_failed getPostgateRecord_putLog)
next
  case (Inr prev)
  with assms have "\<forall>next. callback prev \<noteq> Inr (Some next)" by simp
  with Inr show ?thesis
    by (simp add: upsertPostgate_fetched getPostgateRecord_putLog split: sum.splits option.splits)
qed

lemma upsertPostgate_write:
  assumes g: "fst (getPostgateRecord deps agent postUri w) = Inr prev"
    and c: "callback prev = Inr (Some next)"
  shows "\<exists>k u. 1 \<le> k \<and> k \<le> 3 \<and> AtUri_new deps postUri = Inr u \<and>
           putLog (snd (upsertPostgate deps agent postUri callback w)) =
             putLog w @ replicate k
               \<lparr>repo = session_did agent, collection = POSTGATE_COLLECTION deps,
                rkey = AtUri.rkey u, record_written = next\<rparr>"
proof -
  from getPostgateRecord_parsed[OF g] obtain u where u: "AtUri_new deps postUri = Inr u" ..
  from writePostgateRecord_putLog[OF u, of agent "next" "snd (getPostgateRecord deps agent postUri w)"]
  obtain k where "1 \<le> k" "k \<le> 3"
    "putLog (snd (writePostgateRecord deps agent postUri next (snd (getPostgateRecord deps agent postUri w)))) =
       putLog w @ replicate k
         \<lparr>repo = session_did agent, collection = POSTGATE_COLLECTION deps,
          rkey = AtUri.rkey u, record_written = next\<rparr>"
    by (auto simp: getPostgateRecord_putLog)
  with g c u show ?thesis by (auto simp: upsertPostgate_fetched)
qed

text \<open>
  C3. \<^verbatim>\<open>upsertPostgate\<close> calls \<^verbatim>\<open>putRecord\<close> if and only if the fetch returned a
  previous value and the callback, applied to it, returned a record; each such call (one
  to three, the write being retried) carries exactly that record, under the session's
  repository, the postgate collection and the record key of the post URI. The reattach
  toggle on a post without a postgate record resolves without any \<^verbatim>\<open>putRecord\<close> call.
\<close>

theorem upsertPostgate_writes_iff:
  "(putLog (snd (upsertPostgate deps agent postUri callback w)) \<noteq> putLog w \<longleftrightarrow>
      (\<exists>prev next. fst (getPostgateRecord deps agent postUri w) = Inr prev \<and>
                    callback prev = Inr (Some next)))
   \<and> (\<forall>prev next. fst (getPostgateRecord deps agent postUri w) = Inr prev \<and>
                    callback prev = Inr (Some next) \<longrightarrow>
        (\<exists>k u. 1 \<le> k \<and> k \<le> 3 \<and> AtUri_new deps postUri = Inr u \<and>
           putLog (snd (upsertPostgate deps agent postUri callback w)) =
             putLog w @ replicate k
               \<lparr>repo = session_did agent, collection = POSTGATE_COLLECTION deps,
                rkey = AtUri.rkey u, record_written = next\<rparr>))
   \<and> (fst (getPostgateRecord deps agent quoteUri w) = Inr None \<longrightarrow>
        useToggleQuoteDetachmentMutation_mutationFn deps agent pv quoteUri Reattach w
          = (Inr (), snd (getPostgateRecord deps agent quoteUri w)) \<and>
        putLog (snd (useToggleQuoteDetachmentMutation_mutationFn deps agent pv quoteUri Reattach w))
          = putLog w)"
proof (intro conjI)
  show "putLog (snd (upsertPostgate deps agent postUri callback w)) \<noteq> putLog w \<longleftrightarrow>
      (\<exists>prev next. fst (getPostgateRecord deps agent postUri w) = Inr prev \<and>
                    callback prev = Inr (Some next))"
  proof
    assume "putLog (snd (upsertPostgate deps agent postUri callback w)) \<noteq> putLog w"
    then show "\<exists>prev next. fst (getPostgateRecord deps agent postUri w) = Inr prev \<and>
                    callback prev = Inr (Some next)"
      using upsertPostgate_no_write by blast
  next
    assume "\<exists>prev next. fst (getPostgateRecord deps agent postUri w) = Inr prev \<and>
                    callback prev = Inr (Some next)"
    then obtain prev "next" where a: "fst (getPostgateRecord deps agent postUri w) = Inr prev"
      and b: "callback prev = Inr (Some next)" by blast
    from upsertPostgate_write[where callback = callback, OF a b] obtain k and u :: AtUri where "1 \<le> k"
      "putLog (snd (upsertPostgate deps agent postUri callback w)) =
             putLog w @ replicate k
               \<lparr>repo = session_did agent, collection = POSTGATE_COLLECTION deps,
                rkey = AtUri.rkey u, record_written = next\<rparr>" by auto
    then show "putLog (snd (upsertPostgate deps agent postUri callback w)) \<noteq> putLog w"
      by (cases k) simp_all
  qed
  show "\<forall>prev next. fst (getPostgateRecord deps agent postUri w) = Inr prev \<and>
                    callback prev = Inr (Some next) \<longrightarrow>
        (\<exists>k u. 1 \<le> k \<and> k \<le> 3 \<and> AtUri_new deps postUri = Inr u \<and>
           putLog (snd (upsertPostgate deps agent postUri callback w)) =
             putLog w @ replicate k
               \<lparr>repo = session_did agent, collection = POSTGATE_COLLECTION deps,
                rkey = AtUri.rkey u, record_written = next\<rparr>)"
    using upsertPostgate_write by blast
  show "fst (getPostgateRecord deps agent quoteUri w) = Inr None \<longrightarrow>
        useToggleQuoteDetachmentMutation_mutationFn deps agent pv quoteUri Reattach w
          = (Inr (), snd (getPostgateRecord deps agent quoteUri w)) \<and>
        putLog (snd (useToggleQuoteDetachmentMutation_mutationFn deps agent pv quoteUri Reattach w))
          = putLog w"
    by (simp add: useToggleQuoteDetachmentMutation_mutationFn_def upsertPostgate_fetched
          useToggleQuoteDetachmentMutation_callback_def getPostgateRecord_putLog)
qed

text \<open>
  C10. On an existing record, the enable branch returns the record with only
  \<^verbatim>\<open>quotepostRules\<close> changed (to the empty list), and the reattach branch returns it with only
  \<^verbatim>\<open>detachedQuotes\<close> changed: the post's URI filtered out of the list, the empty list
  when the field was absent.
\<close>

theorem toggles_change_one_field:
  "(\<exists>r. useToggleQuotepostEnabledMutation_callback postUri Enable (Some prev) = Inr (Some r) \<and>
        r = prev\<lparr>quotepostRules := quotepostRules r\<rparr> \<and> quotepostRules r = Some [] \<and>
        detachedQuotes r = detachedQuotes prev \<and> post r = post prev)
   \<and> (\<exists>r. useToggleQuoteDetachmentMutation_callback pv quoteUri Reattach (Some prev) = Inr (Some r) \<and>
        r = prev\<lparr>detachedQuotes := detachedQuotes r\<rparr> \<and>
        quotepostRules r = quotepostRules prev \<and> post r = post prev \<and>
        (detachedQuotes prev = None \<longrightarrow> detachedQuotes r = Some []) \<and>
        (\<forall>qs. detachedQuotes prev = Some qs \<longrightarrow>
           detachedQuotes r = Some (filter (\<lambda>u. u \<noteq> PostView.uri pv) qs)))"
  by (simp add: useToggleQuotepostEnabledMutation_callback_def
        useToggleQuoteDetachmentMutation_callback_def)

subsection \<open>Merging\<close>

lemma collapse_fold_distinct:
  "distinct acc \<Longrightarrow>
   distinct (fold (\<lambda>x acc. if x \<in> set acc then acc else acc @ [x]) xs acc)"
  by (induction xs arbitrary: acc) simp_all

lemma collapse_fold_set:
  "set (fold (\<lambda>x acc. if x \<in> set acc then acc else acc @ [x]) xs acc) = set acc \<union> set xs"
  by (induction xs arbitrary: acc) auto

lemma collapse_fold_absorbed:
  "set xs \<subseteq> set acc \<Longrightarrow>
   fold (\<lambda>x acc. if x \<in> set acc then acc else acc @ [x]) xs acc = acc"
  by (induction xs arbitrary: acc) simp_all

lemma collapse_fold_fresh:
  "distinct xs \<Longrightarrow> set xs \<inter> set acc = {} \<Longrightarrow>
   fold (\<lambda>x acc. if x \<in> set acc then acc else acc @ [x]) xs acc = acc @ xs"
  by (induction xs arbitrary: acc) simp_all

lemma count_list_distinct: "distinct xs \<Longrightarrow> x \<in> set xs \<Longrightarrow> count_list xs x = 1"
  by (induction xs) auto

lemma distinct_collapse: "distinct (collapse xs)"
  by (simp add: collapse_def collapse_fold_distinct)

lemma set_collapse: "set (collapse xs) = set xs"
  by (simp add: collapse_def collapse_fold_set)

lemma collapse_distinct_id: "distinct xs \<Longrightarrow> collapse xs = xs"
  using collapse_fold_fresh[of xs "[]"] by (simp add: collapse_def)

lemma collapse_again: "collapse (collapse (xs @ ys) @ ys) = collapse (xs @ ys)"
proof -
  let ?f = "\<lambda>x acc. if x \<in> set acc then acc else acc @ [x]"
  have "collapse (collapse (xs @ ys) @ ys) = fold ?f ys (fold ?f (collapse (xs @ ys)) [])"
    by (simp add: collapse_def)
  also have "fold ?f (collapse (xs @ ys)) [] = collapse (xs @ ys)"
    using collapse_distinct_id[OF distinct_collapse, of "xs @ ys"] by (simp add: collapse_def)
  also have "fold ?f ys (collapse (xs @ ys)) = collapse (xs @ ys)"
    by (rule collapse_fold_absorbed) (simp add: set_collapse)
  finally show ?thesis .
qed

lemma quotes_of_merge:
  "quotes_of (mergePostgateRecords base delta) = collapse (quotes_of base @ quotes_of delta)"
  by (simp add: mergePostgateRecords_def quotes_of_def)

text \<open>
  C6. Merging a delta a second time leaves \<^verbatim>\<open>detachedQuotes\<close> as the first merge
  made it, and a URI of the delta occurs in it exactly once, after one merge and after
  two. The merged list holds the entries of the base and of the delta.
\<close>

theorem mergePostgateRecords_idempotent:
  "u \<in> set (quotes_of delta) \<Longrightarrow>
     detachedQuotes (mergePostgateRecords (mergePostgateRecords base delta) delta)
       = detachedQuotes (mergePostgateRecords base delta)
   \<and> set (quotes_of (mergePostgateRecords base delta)) = set (quotes_of base) \<union> set (quotes_of delta)
   \<and> count_list (quotes_of (mergePostgateRecords base delta)) u = 1
   \<and> count_list (quotes_of (mergePostgateRecords (mergePostgateRecords base delta) delta)) u = 1"
proof -
  assume u: "u \<in> set (quotes_of delta)"
  have twice: "quotes_of (mergePostgateRecords (mergePostgateRecords base delta) delta)
                 = quotes_of (mergePostgateRecords base delta)"
    by (simp only: quotes_of_merge collapse_again)
  have once: "count_list (quotes_of (mergePostgateRecords base delta)) u = 1"
    using u distinct_collapse[of "quotes_of base @ quotes_of delta"]
    by (simp add: quotes_of_merge count_list_distinct set_collapse)
  have "detachedQuotes (mergePostgateRecords (mergePostgateRecords base delta) delta)
       = detachedQuotes (mergePostgateRecords base delta)"
    using twice by (simp add: mergePostgateRecords_def quotes_of_def)
  moreover have "set (quotes_of (mergePostgateRecords base delta))
                   = set (quotes_of base) \<union> set (quotes_of delta)"
    by (simp add: quotes_of_merge set_collapse)
  ultimately show ?thesis using once twice by simp
qed

section \<open>Concrete runs\<close>

theorem mergePostgateRecords_idempotent_witness:
  "''at://q2'' \<in> set (quotes_of \<lparr>detachedQuotes = Some [''at://q2''], quotepostRules = None\<rparr>)
   \<and> detachedQuotes (mergePostgateRecords
        (mergePostgateRecords gate0 \<lparr>detachedQuotes = Some [''at://q2''], quotepostRules = None\<rparr>)
        \<lparr>detachedQuotes = Some [''at://q2''], quotepostRules = None\<rparr>)
      = Some [''at://q1'', ''at://q2'']
   \<and> count_list (quotes_of (mergePostgateRecords gate0
        \<lparr>detachedQuotes = Some [''at://q2''], quotepostRules = None\<rparr>)) ''at://q2'' = 1"
proof -
  have h: "''at://q2'' \<in> set (quotes_of \<lparr>detachedQuotes = Some [''at://q2''], quotepostRules = None\<rparr>)"
    by (simp add: quotes_of_def)
  have m: "detachedQuotes (mergePostgateRecords gate0
             \<lparr>detachedQuotes = Some [''at://q2''], quotepostRules = None\<rparr>)
           = Some [''at://q1'', ''at://q2'']"
    by (simp add: mergePostgateRecords_def quotes_of_def gate0_def collapse_def)
  from mergePostgateRecords_idempotent[OF h, of gate0] h m show ?thesis by simp
qed

lemma not_located_samples:
  "not_located (Error ''Could not locate record: at://x'' c)"
  "\<not> not_located (Error ''Network request failed'' c)"
  by (simp_all add: not_located_def)

lemma resolveUri_sample: "resolveUri deps0 agent0 uri0 = Inr urip0"
  by (simp add: resolveUri_def deps0_def agent0_def urip0_def)

lemma resolveUri_sample1: "resolveUri deps0 agent1 uri0 = Inr urip0"
  by (simp add: resolveUri_def deps0_def agent0_def agent1_def urip0_def)

lemma fetchRecord_sample:
  "fetchRecord deps0 agent0 urip0 world0 =
     (Inl (Error ''Could not locate record: at://x'' None), \<lparr>getLog = [key0, key0], putLog = []\<rparr>)"
  by (simp add: fetchRecord_def numeral_2_eq_2 callGetRecord_def retry_cond_def
        not_located_samples agent0_def deps0_def urip0_def world0_def key0_def)

lemma getPostgateRecord_sample:
  "getPostgateRecord deps0 agent0 uri0 world0 = (Inr None, \<lparr>getLog = [key0, key0], putLog = []\<rparr>)"
  by (simp add: getPostgateRecord_def resolveUri_sample fetchRecord_sample not_located_samples)

lemma getPostgateRecord_sample2:
  "fst (fetchRecord deps0 agent2 urip0 world0) = Inl (Error ''Network request failed'' None)"
  by (simp add: fetchRecord_def numeral_2_eq_2 callGetRecord_def retry_cond_def
        not_located_samples agent0_def agent2_def)

lemma resolveUri_sample2: "resolveUri deps0 agent2 uri0 = Inr urip0"
  by (simp add: resolveUri_def deps0_def agent0_def agent2_def urip0_def)

theorem getPostgateRecord_absent_cases_witness:
  "resolveUri deps0 agent0 uri0 = Inr urip0
   \<and> fst (fetchRecord deps0 agent0 urip0 world0) = Inl (Error ''Could not locate record: at://x'' None)
   \<and> fst (getPostgateRecord deps0 agent0 uri0 world0) = Inr None
   \<and> fst (getPostgateRecord deps0 agent2 uri0 world0)
       = Inl (Error ''Failed to get postgate record'' (Some (Error ''Network request failed'' None)))"
proof -
  have f: "fst (fetchRecord deps0 agent0 urip0 world0)
             = Inl (Error ''Could not locate record: at://x'' None)"
    by (simp add: fetchRecord_sample)
  from getPostgateRecord_absent_cases[of deps0 agent0 uri0 world0]
    resolveUri_sample f not_located_samples(1)
  have a: "fst (getPostgateRecord deps0 agent0 uri0 world0) = Inr None" by blast
  from getPostgateRecord_absent_cases[of deps0 agent2 uri0 world0]
    resolveUri_sample2 getPostgateRecord_sample2 not_located_samples(2)
  have "fst (getPostgateRecord deps0 agent2 uri0 world0)
       = Inl (Error ''Failed to get postgate record'' (Some (Error ''Network request failed'' None)))"
    by blast
  with a f resolveUri_sample show ?thesis by simp
qed

theorem not_located_by_substring_witness:
  "message (Error ''Could not locate record: at://x'' None)
     = [] @ ''Could not locate record:'' @ '' at://x''
   \<and> getPostgateRecord deps0 agent1 uri0 world0 = (Inr None, \<lparr>getLog = [key0], putLog = []\<rparr>)
   \<and> \<not> not_located (Error ''Network request failed'' None)
   \<and> retry_cond (Error ''Network request failed'' None)
   \<and> fst (getPostgateRecord deps0 agent2 uri0 world0)
       = Inl (Error ''Failed to get postgate record'' (Some (Error ''Network request failed'' None)))"
proof -
  let ?nf = "Error ''Could not locate record: at://x'' None"
  let ?ne = "Error ''Network request failed'' None"
  have m: "message ?nf = [] @ ''Could not locate record:'' @ '' at://x''"
    by simp
  then have m': "\<exists>pre suf. message ?nf = pre @ ''Could not locate record:'' @ suf"
    by blast
  have g: "getRecord agent1 (length (getLog world0))
             \<lparr>repo = host urip0, collection = POSTGATE_COLLECTION deps0, rkey = AtUri.rkey urip0\<rparr>
           = Inl ?nf"
    by (simp add: agent1_def)
  note t1 = not_located_by_substring[where 'v = "PostgateRecord option" and e = ?nf]
  note y = t1[THEN conjunct2, THEN conjunct2, THEN conjunct1, THEN mp, OF m']
  from y[THEN conjunct2, THEN conjunct2, rule_format, OF conjI[OF resolveUri_sample1 g]]
  have a: "getPostgateRecord deps0 agent1 uri0 world0
                  = (Inr None, \<lparr>getLog = [key0], putLog = []\<rparr>)"
    by (simp add: world0_def urip0_def deps0_def key0_def)
  note t2 = not_located_by_substring[where 'v = "PostgateRecord option" and e = ?ne]
  have l: "\<not> not_located ?ne" by (rule not_located_samples(2))
  then have nm: "\<not> (\<exists>pre suf. message ?ne = pre @ ''Could not locate record:'' @ suf)"
    by (rule contrapos_nn) (rule t2[THEN conjunct1, THEN iffD2])
  have rc: "retry_cond ?ne"
    by (rule t2[THEN conjunct2, THEN conjunct1, THEN iffD2, OF nm])
  note z = t2[THEN conjunct2, THEN conjunct2, THEN conjunct2, THEN mp, OF nm]
  from z[THEN conjunct2, THEN conjunct1, rule_format,
      OF conjI[OF resolveUri_sample2 getPostgateRecord_sample2]]
  have "fst (getPostgateRecord deps0 agent2 uri0 world0)
          = Inl (Error ''Failed to get postgate record'' (Some ?ne))" .
  with m a l rc show ?thesis by simp
qed

theorem upsertPostgate_writes_iff_witness:
  "fst (getPostgateRecord deps0 agent0 uri0 world0) = Inr None
   \<and> putLog (snd (upsertPostgate deps0 agent0 uri0
        (useToggleQuoteDetachmentMutation_callback \<lparr>uri = ''at://q''\<rparr> uri0 Detach) world0))
       \<noteq> putLog world0
   \<and> putLog (snd (useToggleQuoteDetachmentMutation_mutationFn deps0 agent0
        \<lparr>uri = ''at://q''\<rparr> uri0 Reattach world0)) = putLog world0"
proof -
  have g: "fst (getPostgateRecord deps0 agent0 uri0 world0) = Inr None"
    by (simp add: getPostgateRecord_sample)
  have c: "useToggleQuoteDetachmentMutation_callback \<lparr>uri = ''at://q''\<rparr> uri0 Detach None
             = Inr (Some (createPostgateRecord uri0
                 \<lparr>detachedQuotes = Some [''at://q''], quotepostRules = None\<rparr>))"
    by (simp add: useToggleQuoteDetachmentMutation_callback_def)
  note t = upsertPostgate_writes_iff[of deps0 agent0 uri0
      "useToggleQuoteDetachmentMutation_callback \<lparr>uri = ''at://q''\<rparr> uri0 Detach" world0
      uri0 "\<lparr>uri = ''at://q''\<rparr>"]
  from t g c have "putLog (snd (upsertPostgate deps0 agent0 uri0
        (useToggleQuoteDetachmentMutation_callback \<lparr>uri = ''at://q''\<rparr> uri0 Detach) world0))
       \<noteq> putLog world0"
    by blast
  moreover from t g have "putLog (snd (useToggleQuoteDetachmentMutation_mutationFn deps0 agent0
        \<lparr>uri = ''at://q''\<rparr> uri0 Reattach world0)) = putLog world0"
    by blast
  ultimately show ?thesis using g by simp
qed

theorem toggles_change_one_field_witness:
  "useToggleQuotepostEnabledMutation_callback uri0 Enable (Some gate1)
     = Inr (Some (gate1\<lparr>quotepostRules := Some []\<rparr>))
   \<and> detachedQuotes gate1 = None
   \<and> (\<exists>r. useToggleQuoteDetachmentMutation_callback \<lparr>uri = ''at://q''\<rparr> uri0 Reattach (Some gate1)
             = Inr (Some r) \<and> detachedQuotes r = Some [] \<and>
           quotepostRules r = quotepostRules gate1 \<and> post r = post gate1)"
proof -
  have n: "detachedQuotes gate1 = None" by (simp add: gate1_def)
  have e: "useToggleQuotepostEnabledMutation_callback uri0 Enable (Some gate1)
     = Inr (Some (gate1\<lparr>quotepostRules := Some []\<rparr>))"
    by (simp add: useToggleQuotepostEnabledMutation_callback_def)
  from toggles_change_one_field[of uri0 gate1 "\<lparr>uri = ''at://q''\<rparr>" uri0] n
  have "\<exists>r. useToggleQuoteDetachmentMutation_callback \<lparr>uri = ''at://q''\<rparr> uri0 Reattach (Some gate1)
             = Inr (Some r) \<and> detachedQuotes r = Some [] \<and>
           quotepostRules r = quotepostRules gate1 \<and> post r = post gate1"
    by blast
  with n e show ?thesis by simp
qed

lemma reducer_description:
  "State.description (reducer s a) =
     (case a of SetDescription d \<Rightarrow> Some d | _ \<Rightarrow> State.description s)"
  by (cases a; cases "currentStep s")
     (simp_all add: reducer_def validity_fields navigation_Next navigation_Back
        navigation_SetCanNext)

theorem reducer_canNext_witness:
  "canNext (reducer (createInitialState isRecord0 None) (SetDescription ''hi''))
   \<and> \<not> canNext (reducer (createInitialState isRecord0 None) (SetName ''Pack''))
   \<and> canNext (reducer (createInitialState isRecord0 None) Next)"
  using reducer_canNext[of "createInitialState isRecord0 None" "SetDescription ''hi''"]
    reducer_canNext[of "createInitialState isRecord0 None" "SetName ''Pack''"]
    reducer_canNext[of "createInitialState isRecord0 None" Next]
  by (simp add: reducer_currentStep reducer_description createInitialState_def)

theorem reducer_step_adjacent_witness:
  "currentStep (createInitialState isRecord0 None) = Details
   \<and> currentStep (reducer (createInitialState isRecord0 None) Back) = Details
   \<and> indexOf steps (currentStep (reducer (createInitialState isRecord0 None) Next)) = 1"
proof -
  have d: "currentStep (createInitialState isRecord0 None) = Details"
    by (simp add: createInitialState_def)
  from reducer_step_adjacent[of "createInitialState isRecord0 None" Next] d
  have "currentStep (reducer (createInitialState isRecord0 None) Back) = Details"
    by simp
  moreover have "indexOf steps (currentStep (reducer (createInitialState isRecord0 None) Next)) = 1"
    by (simp add: reducer_currentStep d indexOf_steps)
  ultimately show ?thesis using d by simp
qed

theorem createInitialState_canNext_witness:
  "State.description (createInitialState isRecord0 (Some pack0)) = Some ''hi''
   \<and> \<not> canNext (createInitialState isRecord0 (Some pack0))
   \<and> \<not> canNext (createInitialState isRecord0 None)"
  using createInitialState_canNext[of "\<lambda>r. True" pack0]
  by (simp add: createInitialState_def pack0_def isRecord0_def)

theorem reducer_SetCanNext_payload_ignored_witness:
  "reducer (createInitialState isRecord0 (Some pack0)) (SetCanNext False)
     = reducer (createInitialState isRecord0 (Some pack0)) (SetCanNext True)
   \<and> canNext (reducer (createInitialState isRecord0 (Some pack0)) (SetCanNext False))"
  using reducer_SetCanNext_payload_ignored[of "createInitialState isRecord0 (Some pack0)" False True]
  by (simp add: reducer_def navigation_SetCanNext validity_canNext createInitialState_def pack0_def
        isRecord0_def)

end
